theory Spec2Isabelle
  imports Complex_Main
begin

section \<open>The dialog component of \<open>src/dialog/internal/dialog.ts\<close>\<close>

text \<open>
  The class \<open>Dialog\<close> is embedded as a record of its fields together with the parts of
  its surroundings that its methods read and write: the change map of the rendering
  framework (only the entry for \<open>open\<close>), the native \<open>dialog\<close> element, the rendered
  content region, the slotted children, the suspended \<open>performTransition\<close> calls, those
  that ended with an exception, and the trace of everything the component does to the
  outside (events dispatched, native operations invoked, focus moved).

  Every method is a function from state to state. An \<open>await\<close> is a suspension point: the
  call is stored in \<open>tasks\<close> with the point it is waiting at, and a later input resumes it.
  Inputs may arrive in any order: the model does not say which of two waiting continuations
  the event loop runs first, so what holds of all runs holds of all schedules. Listeners of
  the four lifecycle events may call back into the dialog while the event is dispatched.
  The fullscreen media query, the reflection of state to host attributes and the throttled
  re-render on scroll are left out; none of them writes a field modelled here.

  The template of \<open>render()\<close> matters in one place: it renders no element of class
  \<open>container\<close> (see \<open>containerElement\<close> below), so a transition sequence ends with an exception
  where it reads the computed style of that element.
\<close>

subsection \<open>Data\<close>

type_synonym node = nat

datatype element =
  Element (eid: node) (attrs: "(string \<times> string) list") (children: "element list")

text \<open>The layout metrics of the content region. \<open>scrollTop\<close> may be fractional; the heights
  are integers. Numbers are exact rationals here, not IEEE doubles.\<close>

record metrics =
  scrollTop :: rat
  scrollHeight :: int
  offsetHeight :: int
  clientHeight :: int

record scroll_info =
  isScrollable :: bool
  isAtScrollTop :: bool
  isAtScrollBottom :: bool

text \<open>What the component does to its surroundings. \<open>Dispatch type action\<close> is the
  \<open>CustomEvent\<close> of \<open>dispatchActionEvent\<close> with \<open>detail.action\<close> (\<open>None\<close> is
  \<open>undefined\<close>).\<close>

datatype effect =
    Dispatch string "string option"
  | ShowModal
  | NativeClose string
  | FocusEl node
  | PreventDefault
  | Redispatch string

text \<open>The suspension points of \<open>performTransition\<close>: the first \<open>await this.updateComplete\<close>,
  \<open>await promise\<close> (a timer of the transition duration, or the next render when the duration
  is zero; the duration is read from the computed style by \<open>msFromTimeCSSValue\<close> and decides
  nothing but which of the two is awaited), and \<open>await closedPromise\<close> with whether the
  promise has been resolved.\<close>

datatype pc = AwaitUpdate | AwaitPromise | AwaitClosed bool

text \<open>An exception thrown inside \<open>performTransition\<close> rejects the promise of that call; nothing
  handles the rejection.\<close>

datatype error = TypeError

record task =
  shouldDispatchAction :: bool
  pc :: pc

record dialog =
  open' :: bool
  defaultAction :: string
  actionAttribute :: string
  scrimClickAction :: string
  escapeKeyAction :: string
  showingOpen :: bool
  "opening" :: bool
  closing :: bool
  currentAction :: "string option"
  dialogClosedResolver :: "nat option"
  hasUpdated :: bool
  changedOpen :: "bool option option"
  nativeOpen :: bool
  closeQueued :: nat
  content :: metrics
  footerSlot :: "element list"
  contentSlot :: "element list"
  tasks :: "nat \<rightharpoonup> task"
  nextTid :: nat
  rejected :: "(nat \<times> error) list"
  trace :: "effect list"

text \<open>A dismissal event of the native dialog: its type (\<open>close\<close> or \<open>cancel\<close>) and whether a
  listener on the host cancels the copy that is dispatched again.\<close>

record dismiss_event =
  etype :: string
  hostCancels :: bool

record click_event =
  target :: element
  composedPath :: "node list"

text \<open>What an embedder can call, also from inside an event listener.\<close>

datatype call = Show | Close string | SetOpen bool

definition CLOSE_ACTION :: string where
  "CLOSE_ACTION = ''close''"

subsection \<open>The document\<close>

text \<open>\<open>Element.getAttribute\<close> on an HTML element converts the name it is given to ASCII lower
  case before it looks the attribute up.\<close>

definition ascii_lowercase :: "char \<Rightarrow> char" where
  "ascii_lowercase c =
     (if 65 \<le> (of_char c :: nat) \<and> (of_char c :: nat) \<le> 90
      then (case c of Char b0 b1 b2 b3 b4 b5 b6 b7 \<Rightarrow> Char b0 b1 b2 b3 b4 True b6 b7)
      else c)"

definition getAttribute :: "element \<Rightarrow> string \<Rightarrow> string option" where
  "getAttribute el name = map_of (attrs el) (map ascii_lowercase name)"

text \<open>The only selector of the source is \<open>[autofocus]\<close>; a selector is the name of the
  attribute that has to be present.\<close>

definition matches :: "string \<Rightarrow> element \<Rightarrow> bool" where
  "matches sel el = (getAttribute el sel \<noteq> None)"

fun preorder :: "element \<Rightarrow> element list" where
  "preorder (Element i a cs) = Element i a cs # concat (map preorder cs)"

text \<open>\<open>querySelector\<close>: the first descendant in tree order that matches.\<close>

definition querySelector :: "string \<Rightarrow> element \<Rightarrow> element option" where
  "querySelector sel el = find (matches sel) (concat (map preorder (children el)))"

text \<open>The cached queries \<open>.content\<close> and \<open>.dialog\<close> find nothing before the first render and
  the rendered element afterwards.\<close>

definition contentElement :: "dialog \<Rightarrow> metrics option" where
  "contentElement d = (if hasUpdated d then Some (content d) else None)"

text \<open>The query \<open>.container\<close> never finds anything. In the template of \<open>render()\<close> the tag
  \<open><slot name="dialog_content_slot></slot>\<close> (dialog.ts, line 178) does not close the quote of
  its \<open>name\<close>. The attribute value runs on to the quote that opens \<open>class="container"\<close> on the
  next line, so \<open><div class="container">\<close> is read as part of the attributes of the \<open>slot\<close> and
  no element of class \<open>container\<close> is rendered. The header, the content region, the footer and
  their slots are rendered inside that \<open>slot\<close>.\<close>

definition containerElement :: "dialog \<Rightarrow> node option" where
  "containerElement d = None"

definition dialogElement_open :: "dialog \<Rightarrow> bool" where
  "dialogElement_open d = (hasUpdated d \<and> nativeOpen d)"

text \<open>The native element, after the HTML standard: \<open>showModal()\<close> on a dialog that is shown
  modally already does nothing more; closing removes \<open>open\<close> at once and queues the
  \<open>close\<close> event; \<open>close()\<close> on a closed dialog does nothing.\<close>

definition showModal :: "dialog \<Rightarrow> dialog" where
  "showModal d = d\<lparr>nativeOpen := True, trace := trace d @ [ShowModal]\<rparr>"

definition close_the_dialog :: "dialog \<Rightarrow> dialog" where
  "close_the_dialog d =
     (if nativeOpen d then d\<lparr>nativeOpen := False, closeQueued := Suc (closeQueued d)\<rparr> else d)"

definition native_close :: "string \<Rightarrow> dialog \<Rightarrow> dialog" where
  "native_close returnValue d = close_the_dialog (d\<lparr>trace := trace d @ [NativeClose returnValue]\<rparr>)"

subsection \<open>The reactive property \<open>open\<close>\<close>

text \<open>The setter that the \<open>@property\<close> decorator installs: a write of the value the property
  has already is dropped; a write of another value stores it and records the previous value
  in the change map, unless the map has an entry for \<open>open\<close> already.\<close>

definition set_open :: "bool \<Rightarrow> dialog \<Rightarrow> dialog" where
  "set_open v d =
     (if v = open' d then d
      else d\<lparr>open' := v,
             changedOpen := (case changedOpen d of
                               None \<Rightarrow> Some (Some (open' d))
                             | Some old \<Rightarrow> Some old)\<rparr>)"

definition dialog_show :: "dialog \<Rightarrow> dialog" where
  "dialog_show d = set_open True d"

definition dialog_close :: "string \<Rightarrow> dialog \<Rightarrow> dialog" where
  "dialog_close action d = set_open False (d\<lparr>currentAction := Some action\<rparr>)"

fun apply_call :: "call \<Rightarrow> dialog \<Rightarrow> dialog" where
  "apply_call Show d = dialog_show d"
| "apply_call (Close action) d = dialog_close action d"
| "apply_call (SetOpen v) d = set_open v d"

subsection \<open>Scroll dividers\<close>

definition getContentScrollInfo :: "dialog \<Rightarrow> scroll_info" where
  "getContentScrollInfo d =
     (if \<not> hasUpdated d \<or> contentElement d = None
      then \<lparr>isScrollable = False, isAtScrollTop = True, isAtScrollBottom = True\<rparr>
      else (case contentElement d of
              Some m \<Rightarrow>
                \<lparr>isScrollable = (scrollHeight m > offsetHeight m),
                 isAtScrollTop = (scrollTop m = 0),
                 isAtScrollBottom =
                   (\<bar>round (of_int (scrollHeight m) - scrollTop m) - clientHeight m\<bar> \<le> 2)\<rparr>
            | None \<Rightarrow> \<lparr>isScrollable = False, isAtScrollTop = True, isAtScrollBottom = True\<rparr>))"

subsection \<open>Focus\<close>

fun first_focus :: "string \<Rightarrow> element list \<Rightarrow> element option" where
  "first_focus selector [] = None"
| "first_focus selector (el # slotted) =
     (case (if matches selector el then Some el else querySelector selector el) of
        Some focusEl \<Rightarrow> Some focusEl
      | None \<Rightarrow> first_focus selector slotted)"

text \<open>\<open>footerSlot\<close> and \<open>contentSlot\<close> hold what \<open>assignedElements({flatten: true})\<close> returns for
  the two slots.\<close>

definition getFocusElement :: "dialog \<Rightarrow> element option" where
  "getFocusElement d = first_focus ''autofocus'' (concat (map (\<lambda>slot. slot) [footerSlot d, contentSlot d]))"

definition focus :: "dialog \<Rightarrow> dialog" where
  "focus d = (case getFocusElement d of
                None \<Rightarrow> d
              | Some el \<Rightarrow> d\<lparr>trace := trace d @ [FocusEl (eid el)]\<rparr>)"

subsection \<open>The update cycle\<close>

text \<open>\<open>changed\<close> is the entry of the change map for \<open>open\<close>: \<open>None\<close> when the map has none,
  \<open>Some None\<close> when the previous value is \<open>undefined\<close>. \<open>closing\<close> is stored by its truth value
  (\<open>!open && undefined\<close> is falsy).\<close>

definition willUpdate :: "bool option option \<Rightarrow> dialog \<Rightarrow> dialog" where
  "willUpdate changed d =
     (case changed of
        None \<Rightarrow> d
      | Some old \<Rightarrow> d\<lparr>opening := open' d, closing := (\<not> open' d \<and> old = Some True)\<rparr>)"

text \<open>\<open>performTransition\<close> runs up to its first \<open>await\<close> inside \<open>updated\<close>: nothing happens
  before that \<open>await\<close>, the call is suspended at once.\<close>

definition performTransition :: "bool \<Rightarrow> dialog \<Rightarrow> dialog" where
  "performTransition sda d =
     d\<lparr>tasks := (tasks d)(nextTid d \<mapsto> \<lparr>shouldDispatchAction = sda, pc = AwaitUpdate\<rparr>),
       nextTid := Suc (nextTid d)\<rparr>"

definition updated :: "bool option option \<Rightarrow> dialog \<Rightarrow> dialog" where
  "updated changed d =
     (case changed of
        None \<Rightarrow> d
      | Some old \<Rightarrow>
          (let d1 = (if open' d
                     then showModal (d\<lparr>content := (content d)\<lparr>scrollTop := 0\<rparr>\<rparr>)
                     else d);
               sda = (old \<noteq> None)
           in performTransition sda d1))"

text \<open>One update of the rendering framework: \<open>willUpdate\<close>, the render (after which the
  change map is a fresh one and the element counts as updated), then \<open>updated\<close> with the
  change map of this update.\<close>

definition performUpdate :: "dialog \<Rightarrow> dialog" where
  "performUpdate d =
     (let changed = changedOpen d;
          d1 = willUpdate changed d;
          d2 = d1\<lparr>changedOpen := None, hasUpdated := True\<rparr>
      in updated changed d2)"

subsection \<open>The transition sequence\<close>

text \<open>\<open>dispatchEvent\<close> runs the listeners before it returns; \<open>listener\<close> is what they call on
  the dialog.\<close>

definition dispatchActionEvent :: "string \<Rightarrow> call list \<Rightarrow> dialog \<Rightarrow> dialog" where
  "dispatchActionEvent type listener d =
     fold apply_call listener
       (d\<lparr>trace := trace d @ [Dispatch type (if open' d then Some ''none'' else currentAction d)]\<rparr>)"

definition action_or_default :: "dialog \<Rightarrow> string" where
  "action_or_default d =
     (case currentAction d of
        None \<Rightarrow> defaultAction d
      | Some a \<Rightarrow> if a = [] then defaultAction d else a)"

definition finish :: "call list \<Rightarrow> nat \<Rightarrow> task \<Rightarrow> dialog \<Rightarrow> dialog" where
  "finish listener k t d =
     (let d1 = (if shouldDispatchAction t
                then dispatchActionEvent (if open' d then ''opened'' else ''closed'') listener d
                else d)
      in d1\<lparr>currentAction := None, tasks := (tasks d1)(k := None)\<rparr>)"

text \<open>One step of \<open>performTransition\<close>, from the point it waits at to its next wait or its
  end. After the first wait it moves the focus, sets \<open>showingOpen\<close> and dispatches the first
  event; then \<open>getComputedStyle(this.containerElement!)\<close> is evaluated, which throws a
  \<open>TypeError\<close> when the query has found no container: the call ends there, with nothing after
  that line executed.\<close>

definition performTransition_resume :: "call list \<Rightarrow> nat \<Rightarrow> task \<Rightarrow> dialog \<Rightarrow> dialog" where
  "performTransition_resume listener k t d =
     (case pc t of
        AwaitUpdate \<Rightarrow>
          (let d1 = (if open' d then focus d else d);
               d2 = d1\<lparr>showingOpen := open' d1\<rparr>;
               d3 = (if shouldDispatchAction t
                     then dispatchActionEvent (if open' d2 then ''opening'' else ''closing'')
                            listener d2
                     else d2)
           in (case containerElement d3 of
                 None \<Rightarrow> d3\<lparr>tasks := (tasks d3)(k := None),
                              rejected := rejected d3 @ [(k, TypeError)]\<rparr>
               | Some c \<Rightarrow> d3\<lparr>tasks := (tasks d3)(k \<mapsto> t\<lparr>pc := AwaitPromise\<rparr>)\<rparr>))
      | AwaitPromise \<Rightarrow>
          (let d1 = d\<lparr>opening := False, closing := False\<rparr>
           in if \<not> open' d1 \<and> dialogElement_open d1
              then (let d2 = d1\<lparr>dialogClosedResolver := Some k\<rparr>;
                        d3 = native_close (action_or_default d2) d2
                    in d3\<lparr>tasks := (tasks d3)(k \<mapsto> t\<lparr>pc := AwaitClosed False\<rparr>)\<rparr>)
              else finish listener k t d1)
      | AwaitClosed resolved \<Rightarrow> (if resolved then finish listener k t d else d))"

subsection \<open>Native dismissal and clicks\<close>

text \<open>Calling the resolver stored in \<open>dialogClosedResolver\<close> resolves the promise of the
  transition that stored it.\<close>

definition resolve :: "dialog \<Rightarrow> dialog" where
  "resolve d =
     (case dialogClosedResolver d of
        None \<Rightarrow> d
      | Some k \<Rightarrow>
          (case tasks d k of
             None \<Rightarrow> d
           | Some t \<Rightarrow>
               (if pc t = AwaitClosed False
                then d\<lparr>tasks := (tasks d)(k \<mapsto> t\<lparr>pc := AwaitClosed True\<rparr>)\<rparr>
                else d)))"

text \<open>Modelled from the spec: \<open>redispatchEvent\<close> of \<open>internal/controller/events.js\<close> is not
  among the sources; it propagates the originating event outward unchanged. The result says
  whether the original event ends up with its default prevented.\<close>

definition redispatchEvent :: "dismiss_event \<Rightarrow> dialog \<Rightarrow> dialog \<times> bool" where
  "redispatchEvent event d = (d\<lparr>trace := trace d @ [Redispatch (etype event)]\<rparr>, hostCancels event)"

definition handleDialogDismiss :: "dismiss_event \<Rightarrow> dialog \<Rightarrow> dialog \<times> bool" where
  "handleDialogDismiss event d =
     (let d1 = (if etype event = ''cancel''
                then d\<lparr>currentAction := Some (escapeKeyAction d)\<rparr>
                else d)
      in if etype event = ''cancel'' \<and> escapeKeyAction d = []
         then (d1\<lparr>trace := trace d1 @ [PreventDefault]\<rparr>, True)
         else (let d2 = resolve d1;
                   d3 = d2\<lparr>dialogClosedResolver := None\<rparr>;
                   d4 = set_open False d3;
                   d5 = d4\<lparr>opening := False, closing := False\<rparr>
               in redispatchEvent event d5))"

definition handleDialogClick :: "click_event \<Rightarrow> dialog \<Rightarrow> dialog" where
  "handleDialogClick event d =
     (if \<not> open' d then d
      else (let action =
                  (case getAttribute (target event) (actionAttribute d) of
                     Some v \<Rightarrow> v
                   | None \<Rightarrow>
                       (case containerElement d of
                          None \<Rightarrow> []
                        | Some c \<Rightarrow>
                            if c \<notin> set (composedPath event) then scrimClickAction d else []));
                d1 = d\<lparr>currentAction := Some action\<rparr>
            in if action \<noteq> [] then dialog_close action d1 else d1))"

subsection \<open>Runs\<close>

text \<open>Everything that can happen to a dialog: a call or a configuration change by the
  embedder, an update of the framework, the resumption of a suspended transition (with what
  the listeners of its event call), the delivery of a queued native \<open>close\<close> event, a
  cancellation gesture on the open native dialog, a click inside the rendered dialog, a
  change of layout or of the slotted children.\<close>

datatype input =
    Call call
  | SetDefaultAction string
  | SetActionAttribute string
  | SetScrimClickAction string
  | SetEscapeKeyAction string
  | Update
  | Resume nat "call list"
  | CloseEvent bool
  | CancelEvent bool
  | Click click_event
  | Layout metrics
  | Slotted "element list" "element list"

fun step :: "input \<Rightarrow> dialog \<Rightarrow> dialog" where
  "step (Call c) d = apply_call c d"
| "step (SetDefaultAction s) d = d\<lparr>defaultAction := s\<rparr>"
| "step (SetActionAttribute s) d = d\<lparr>actionAttribute := s\<rparr>"
| "step (SetScrimClickAction s) d = d\<lparr>scrimClickAction := s\<rparr>"
| "step (SetEscapeKeyAction s) d = d\<lparr>escapeKeyAction := s\<rparr>"
| "step Update d = performUpdate d"
| "step (Resume k listener) d =
     (case tasks d k of
        None \<Rightarrow> d
      | Some t \<Rightarrow> performTransition_resume listener k t d)"
| "step (CloseEvent hc) d =
     (if closeQueued d = 0 then d
      else fst (handleDialogDismiss \<lparr>etype = ''close'', hostCancels = hc\<rparr>
                  (d\<lparr>closeQueued := closeQueued d - 1\<rparr>)))"
| "step (CancelEvent hc) d =
     (if dialogElement_open d
      then (case handleDialogDismiss \<lparr>etype = ''cancel'', hostCancels = hc\<rparr> d of
              (d1, prevented) \<Rightarrow> if prevented then d1 else close_the_dialog d1)
      else d)"
| "step (Click event) d = (if hasUpdated d then handleDialogClick event d else d)"
| "step (Layout m) d = d\<lparr>content := m\<rparr>"
| "step (Slotted footer cont) d = d\<lparr>footerSlot := footer, contentSlot := cont\<rparr>"

fun run :: "input list \<Rightarrow> dialog \<Rightarrow> dialog" where
  "run [] d = d"
| "run (i # inputs) d = run inputs (step i d)"

text \<open>The element as constructed: the field initialisers have run, so the change map holds
  \<open>open\<close> with no previous value (\<open>undefined\<close>), and nothing is rendered.\<close>

definition init :: dialog where
  "init =
     \<lparr>open' = False,
      defaultAction = CLOSE_ACTION,
      actionAttribute = ''dialog-action'',
      scrimClickAction = CLOSE_ACTION,
      escapeKeyAction = CLOSE_ACTION,
      showingOpen = False,
      opening = False,
      closing = False,
      currentAction = None,
      dialogClosedResolver = None,
      hasUpdated = False,
      changedOpen = Some None,
      nativeOpen = False,
      closeQueued = 0,
      content = \<lparr>scrollTop = 0, scrollHeight = 0, offsetHeight = 0, clientHeight = 0\<rparr>,
      footerSlot = [],
      contentSlot = [],
      tasks = Map.empty,
      nextTid = 0,
      rejected = [],
      trace = []\<rparr>"

subsection \<open>Reference states and the specification's wording\<close>

text \<open>A dialog that has been constructed, rendered, opened by \<open>show()\<close> and left alone until
  nothing was pending any more: the first update and its transition sequence, then \<open>show()\<close>,
  the update that follows and its transition sequence.\<close>

definition opened_inputs :: "input list" where
  "opened_inputs = [Update, Resume 0 [], Call Show, Update, Resume 1 []]"

definition opened :: dialog where
  "opened = run opened_inputs init"

text \<open>The focus target as the specification words it: the regions in the order footer,
  content; in a region the first slotted element that matches or has a matching descendant;
  of such an element, itself or else its first matching descendant.\<close>

fun first_some :: "('a \<Rightarrow> 'b option) \<Rightarrow> 'a list \<Rightarrow> 'b option" where
  "first_some f [] = None"
| "first_some f (x # xs) = (case f x of Some y \<Rightarrow> Some y | None \<Rightarrow> first_some f xs)"

definition self_or_first_descendant :: "element \<Rightarrow> element option" where
  "self_or_first_descendant el = find (matches ''autofocus'') (preorder el)"

definition spec_focus :: "element list \<Rightarrow> element list \<Rightarrow> element option" where
  "spec_focus footer cont =
     (case first_some self_or_first_descendant footer of
        Some el \<Rightarrow> Some el
      | None \<Rightarrow> first_some self_or_first_descendant cont)"

text \<open>A rendered, closed dialog whose content region has the given metrics.\<close>

definition rendered :: "metrics \<Rightarrow> dialog" where
  "rendered m = init\<lparr>hasUpdated := True, changedOpen := None, content := m\<rparr>"

text \<open>Nothing is pending: no unprocessed change of \<open>open\<close> and no transition sequence in
  flight.\<close>

definition quiescent :: "dialog \<Rightarrow> bool" where
  "quiescent d = (changedOpen d = None \<and> tasks d = Map.empty)"

text \<open>An invariant of all runs: either \<open>showingOpen\<close> agrees with \<open>open\<close>, or a change of
  \<open>open\<close> awaits its update, or a transition sequence has not yet passed its first wait.\<close>

definition shown_or_pending :: "dialog \<Rightarrow> bool" where
  "shown_or_pending d =
     (changedOpen d \<noteq> None \<or> (\<exists>k t. tasks d k = Some t \<and> pc t = AwaitUpdate)
      \<or> showingOpen d = open' d)"

text \<open>The lifecycle events among the effects.\<close>

fun is_lifecycle :: "effect \<Rightarrow> bool" where
  "is_lifecycle (Dispatch type action) = True"
| "is_lifecycle e = False"

text \<open>An invariant of all runs: the change map holds \<open>open\<close> with no previous value
  exactly until the first update, and the transition sequence started by the first update
  (number \<open>0\<close>) is the only one that may not dispatch.\<close>

definition first_application :: "dialog \<Rightarrow> bool" where
  "first_application d =
     ((hasUpdated d \<longrightarrow> changedOpen d \<noteq> Some None)
      \<and> (\<not> hasUpdated d \<longrightarrow> changedOpen d = Some None)
      \<and> (nextTid d = 0) = (\<not> hasUpdated d)
      \<and> (\<forall>k t. tasks d k = Some t \<longrightarrow> shouldDispatchAction t = (k \<noteq> 0)))"

text \<open>The effects of the second half of a transition sequence: the native \<open>close()\<close> and the
  events \<open>opened\<close> and \<open>closed\<close>.\<close>

fun is_completion :: "effect \<Rightarrow> bool" where
  "is_completion (NativeClose returnValue) = True"
| "is_completion (Dispatch type action) = (type = ''opened'' \<or> type = ''closed'')"
| "is_completion e = False"

text \<open>An invariant of all runs: no transition sequence waits anywhere but at its first wait, and
  no effect of the second half has happened.\<close>

definition first_half_only :: "dialog \<Rightarrow> bool" where
  "first_half_only d =
     ((\<forall>k t. tasks d k = Some t \<longrightarrow> pc t = AwaitUpdate) \<and> filter is_completion (trace d) = [])"

text \<open>On the open dialog: the cancellation gesture is disabled, \<open>close('buy')\<close> is called, the
  update runs and the transition sequence dispatches \<open>closing\<close>.\<close>

definition closing_buy :: "input list" where
  "closing_buy = [SetEscapeKeyAction [], Call (Close ''buy''), Update, Resume 2 []]"

text \<open>An invariant of all runs: while \<open>open\<close> is true and no change of it awaits an update,
  \<open>opening\<close> is set.\<close>

definition opening_kept :: "dialog \<Rightarrow> bool" where
  "opening_kept d = (changedOpen d = None \<and> open' d \<longrightarrow> opening d)"

section \<open>Properties\<close>

subsection \<open>Evaluation\<close>

lemmas dialog_defs =
  init_def CLOSE_ACTION_def set_open_def dialog_show_def dialog_close_def willUpdate_def
  performTransition_def updated_def performUpdate_def dispatchActionEvent_def
  action_or_default_def finish_def performTransition_resume_def resolve_def
  redispatchEvent_def handleDialogDismiss_def handleDialogClick_def showModal_def
  close_the_dialog_def native_close_def focus_def getFocusElement_def
  contentElement_def containerElement_def dialogElement_open_def getAttribute_def
  ascii_lowercase_def matches_def querySelector_def

lemma opened_eq:
  "opened = init\<lparr>open' := True, showingOpen := True, opening := True, hasUpdated := True,
       changedOpen := None, nativeOpen := True, nextTid := 2,
       rejected := [(0, TypeError), (1, TypeError)],
       trace := [ShowModal, Dispatch ''opening'' (Some ''none'')]\<rparr>"
  by (simp add: opened_def opened_inputs_def dialog_defs Let_def)

lemma run_append: "run (xs @ ys) d = run ys (run xs d)"
  by (induction xs arbitrary: d) simp_all

subsection \<open>Clicks\<close>

text \<open>
  Claim C10. A click while the dialog is open on a target without the action attribute
  resolves the action to the empty string and does not call \<open>close()\<close>: only \<open>currentAction\<close> is
  written, \<open>open\<close> stays true, nothing is dispatched, no change of \<open>open\<close> is recorded and no
  transition is started. This holds whatever the event's path is, so also for a path through
  the dialog's own content: the handler finds no container element to look for on the path.
  A click while \<open>open\<close> is false changes nothing at all.
\<close>

theorem handleDialogClick_inside:
  "(open' d \<and> getAttribute (target event) (actionAttribute d) = None \<longrightarrow>
        handleDialogClick event d = d\<lparr>currentAction := Some []\<rparr>
      \<and> open' (handleDialogClick event d)
      \<and> trace (handleDialogClick event d) = trace d
      \<and> changedOpen (handleDialogClick event d) = changedOpen d
      \<and> tasks (handleDialogClick event d) = tasks d
      \<and> (hasUpdated d \<longrightarrow> step (Click event) d = d\<lparr>currentAction := Some []\<rparr>))
   \<and> (\<not> open' d \<longrightarrow> handleDialogClick event d = d \<and> step (Click event) d = d)"
  by (auto simp: handleDialogClick_def containerElement_def)

theorem handleDialogClick_inside_witness:
  "handleDialogClick \<lparr>target = Element 7 [(''slot'', ''footer'')] [], composedPath = [7, 3, 1]\<rparr> opened
     = opened\<lparr>currentAction := Some []\<rparr>
   \<and> step (Click \<lparr>target = Element 7 [(''slot'', ''footer'')] [], composedPath = [7, 3, 1]\<rparr>) opened
     = opened\<lparr>currentAction := Some []\<rparr>
   \<and> open' opened \<and> hasUpdated opened
   \<and> getAttribute (Element 7 [(''slot'', ''footer'')] []) (actionAttribute opened) = None
   \<and> handleDialogClick \<lparr>target = Element 7 [(''dialog-action'', ''buy'')] [], composedPath = [7, 3, 1]\<rparr> init
     = init"
  using handleDialogClick_inside
          [of opened "\<lparr>target = Element 7 [(''slot'', ''footer'')] [], composedPath = [7, 3, 1]\<rparr>"]
        handleDialogClick_inside
          [of init "\<lparr>target = Element 7 [(''dialog-action'', ''buy'')] [], composedPath = [7, 3, 1]\<rparr>"]
  by (simp add: opened_eq init_def getAttribute_def ascii_lowercase_def)

subsection \<open>Writes of the current value\<close>

lemma performUpdate_unchanged:
  "changedOpen d = None \<Longrightarrow> performUpdate d = d\<lparr>hasUpdated := True\<rparr>"
  by (simp add: performUpdate_def willUpdate_def updated_def)

text \<open>
  Claim C6. Writing to \<open>open\<close> the value it has already changes nothing: \<open>show()\<close> on an open
  dialog is the identity, \<open>close(action)\<close> on a closed one only stores the action, and the next
  update, having no change of \<open>open\<close> to see, leaves \<open>opening\<close> and \<open>closing\<close> as they are, starts no
  transition and dispatches nothing.
\<close>

theorem set_open_same:
  "set_open (open' d) d = d
   \<and> (open' d \<longrightarrow> dialog_show d = d)
   \<and> (\<not> open' d \<longrightarrow> dialog_close action d = d\<lparr>currentAction := Some action\<rparr>)
   \<and> (changedOpen d = None \<longrightarrow>
        performUpdate (set_open (open' d) d) = d\<lparr>hasUpdated := True\<rparr>
      \<and> opening (performUpdate (set_open (open' d) d)) = opening d
      \<and> closing (performUpdate (set_open (open' d) d)) = closing d
      \<and> tasks (performUpdate (set_open (open' d) d)) = tasks d
      \<and> trace (performUpdate (set_open (open' d) d)) = trace d)"
  by (simp add: set_open_def dialog_show_def dialog_close_def performUpdate_unchanged)

theorem set_open_same_witness:
  "dialog_show opened = opened \<and> open' opened \<and> changedOpen opened = None
   \<and> run [Call Show, Update] opened = opened
   \<and> dialog_close ''x'' (run [Update] init) = (run [Update] init)\<lparr>currentAction := Some ''x''\<rparr>"
  using set_open_same [of opened] set_open_same [of "run [Update] init" "''x''"]
  by (simp add: opened_eq dialog_defs)

subsection \<open>Focus\<close>

lemma find_append_case:
  "find P (xs @ ys) = (case find P xs of Some x \<Rightarrow> Some x | None \<Rightarrow> find P ys)"
  by (induction xs) auto

lemma preorder_unfold: "preorder el = el # concat (map preorder (children el))"
  by (cases el) simp

lemma first_focus_find:
  "first_focus sel slotted = find (matches sel) (concat (map preorder slotted))"
proof (induction slotted)
  case Nil
  show ?case by simp
next
  case (Cons el slotted)
  have "find (matches sel) (concat (map preorder (el # slotted)))
        = find (matches sel) (el # (concat (map preorder (children el)) @ concat (map preorder slotted)))"
    using preorder_unfold [of el] by simp
  also have "\<dots> = (case (if matches sel el then Some el else querySelector sel el) of
                      Some focusEl \<Rightarrow> Some focusEl
                    | None \<Rightarrow> find (matches sel) (concat (map preorder slotted)))"
    by (simp add: find_append_case querySelector_def)
  finally show ?case using Cons.IH by (simp split: option.splits)
qed

lemma first_some_find:
  "first_some (\<lambda>el. find P (f el)) xs = find P (concat (map f xs))"
  by (induction xs) (auto simp: find_append_case split: option.splits)

lemma spec_focus_find:
  "spec_focus footer cont = find (matches ''autofocus'') (concat (map preorder (footer @ cont)))"
  unfolding spec_focus_def self_or_first_descendant_def first_some_find
  by (simp add: find_append_case)

lemma getFocusElement_find:
  "getFocusElement d
     = find (matches ''autofocus'') (concat (map preorder (footerSlot d @ contentSlot d)))"
  by (simp add: getFocusElement_def first_focus_find)

lemma trace_fold_apply_call [simp]: "trace (fold apply_call listener d) = trace d"
proof (induction listener arbitrary: d)
  case Nil
  show ?case by simp
next
  case (Cons c listener)
  have "trace (apply_call c d) = trace d"
    by (cases c) (simp_all add: dialog_show_def dialog_close_def set_open_def)
  with Cons show ?case by simp
qed

text \<open>
  Claim C8. The element that receives the initial focus is the one the specification describes
  (footer region before content region, first slotted element that matches \<open>[autofocus]\<close> or
  has a matching descendant, itself or else its first matching descendant); there is none
  exactly when no slotted element and no descendant of one matches, and then \<open>focus()\<close> does
  nothing. A transition sequence that resumes after its first wait on an open dialog moves the
  focus there before it dispatches \<open>opening\<close>.
\<close>

theorem getFocusElement_spec:
  "getFocusElement d = spec_focus (footerSlot d) (contentSlot d)
   \<and> (getFocusElement d = None) =
       (\<forall>el \<in> set (concat (map preorder (footerSlot d @ contentSlot d))). \<not> matches ''autofocus'' el)
   \<and> (getFocusElement d = None \<longrightarrow> focus d = d)
   \<and> (getFocusElement d = Some el \<longrightarrow> trace (focus d) = trace d @ [FocusEl (eid el)])
   \<and> (open' d \<and> pc t = AwaitUpdate \<longrightarrow>
        trace (performTransition_resume listener k t d)
          = trace (focus d)
            @ (if shouldDispatchAction t then [Dispatch ''opening'' (Some ''none'')] else []))"
proof (intro conjI impI)
  show "getFocusElement d = spec_focus (footerSlot d) (contentSlot d)"
    by (simp only: getFocusElement_find spec_focus_find)
  show "(getFocusElement d = None) =
       (\<forall>el \<in> set (concat (map preorder (footerSlot d @ contentSlot d))). \<not> matches ''autofocus'' el)"
    by (simp only: getFocusElement_find find_None_iff) blast
  show "focus d = d" if "getFocusElement d = None"
    using that by (simp add: focus_def)
  show "trace (focus d) = trace d @ [FocusEl (eid el)]" if "getFocusElement d = Some el"
    using that by (simp add: focus_def)
  show "trace (performTransition_resume listener k t d)
          = trace (focus d)
            @ (if shouldDispatchAction t then [Dispatch ''opening'' (Some ''none'')] else [])"
    if "open' d \<and> pc t = AwaitUpdate"
  proof -
    have "open' (focus d)" using that by (simp add: focus_def split: option.splits)
    then show ?thesis
      using that
      by (simp add: performTransition_resume_def dispatchActionEvent_def containerElement_def
            Let_def)
  qed
qed


theorem getFocusElement_spec_witness:
  "getFocusElement
     (opened\<lparr>footerSlot := [Element 1 [] [Element 2 [(''autofocus'', [])] []]],
             contentSlot := [Element 3 [(''autofocus'', [])] []]\<rparr>)
     = Some (Element 2 [(''autofocus'', [])] [])
   \<and> trace (focus (opened\<lparr>footerSlot := [Element 1 [] [Element 2 [(''autofocus'', [])] []]],
             contentSlot := [Element 3 [(''autofocus'', [])] []]\<rparr>))
       = trace opened @ [FocusEl 2]
   \<and> focus (opened\<lparr>footerSlot := [Element 1 [] [Element 2 [] []]]\<rparr>)
       = opened\<lparr>footerSlot := [Element 1 [] [Element 2 [] []]]\<rparr>
   \<and> trace (performTransition_resume [] 5 \<lparr>shouldDispatchAction = True, pc = AwaitUpdate\<rparr>
         (opened\<lparr>contentSlot := [Element 3 [(''autofocus'', [])] []]\<rparr>))
       = trace opened @ [FocusEl 3, Dispatch ''opening'' (Some ''none'')]"
  using getFocusElement_spec
          [of "opened\<lparr>footerSlot := [Element 1 [] [Element 2 [(''autofocus'', [])] []]],
                        contentSlot := [Element 3 [(''autofocus'', [])] []]\<rparr>"
              "Element 2 [(''autofocus'', [])] []" "\<lparr>shouldDispatchAction = True, pc = AwaitUpdate\<rparr>" "[]" 5]
        getFocusElement_spec
          [of "opened\<lparr>footerSlot := [Element 1 [] [Element 2 [] []]]\<rparr>"
              "Element 2 [] []" "\<lparr>shouldDispatchAction = True, pc = AwaitUpdate\<rparr>" "[]" 5]
        getFocusElement_spec
          [of "opened\<lparr>contentSlot := [Element 3 [(''autofocus'', [])] []]\<rparr>"
              "Element 3 [(''autofocus'', [])] []" "\<lparr>shouldDispatchAction = True, pc = AwaitUpdate\<rparr>" "[]" 5]
  by (simp add: opened_eq init_def spec_focus_def self_or_first_descendant_def matches_def
        getAttribute_def ascii_lowercase_def focus_def containerElement_def)

subsection \<open>Scroll dividers\<close>

lemma getContentScrollInfo_unrendered:
  "\<not> hasUpdated d \<or> contentElement d = None \<Longrightarrow>
     getContentScrollInfo d = \<lparr>isScrollable = False, isAtScrollTop = True, isAtScrollBottom = True\<rparr>"
  by (simp add: getContentScrollInfo_def)

lemma getContentScrollInfo_rendered:
  "hasUpdated d \<Longrightarrow> contentElement d = Some m \<Longrightarrow>
     getContentScrollInfo d =
       \<lparr>isScrollable = (scrollHeight m > offsetHeight m),
        isAtScrollTop = (scrollTop m = 0),
        isAtScrollBottom = (\<bar>round (of_int (scrollHeight m) - scrollTop m) - clientHeight m\<bar> \<le> 2)\<rparr>"
  by (simp add: getContentScrollInfo_def)

text \<open>
  Claim C9. \<open>getContentScrollInfo\<close> depends only on whether the element has rendered and on the
  metrics of the content region. Before the first render, or without a content element, it
  reports not scrollable, at the top and at the bottom. Otherwise it is at the top iff
  \<open>scrollTop = 0\<close> and at the bottom iff \<open>|round(scrollHeight - scrollTop) - clientHeight| \<le> 2\<close>.
  For \<open>scrollHeight = 500\<close>, \<open>clientHeight = offsetHeight = 200\<close>: at \<open>scrollTop = 0\<close> scrollable, at
  the top, not at the bottom; at \<open>scrollTop = 300\<close> at the bottom.
\<close>

theorem getContentScrollInfo_spec:
  "(\<not> hasUpdated d \<or> contentElement d = None \<longrightarrow>
      getContentScrollInfo d = \<lparr>isScrollable = False, isAtScrollTop = True, isAtScrollBottom = True\<rparr>)
   \<and> (hasUpdated d \<and> contentElement d = Some m \<longrightarrow>
        isScrollable (getContentScrollInfo d) = (scrollHeight m > offsetHeight m)
      \<and> isAtScrollTop (getContentScrollInfo d) = (scrollTop m = 0)
      \<and> isAtScrollBottom (getContentScrollInfo d) =
          (\<bar>round (of_int (scrollHeight m) - scrollTop m) - clientHeight m\<bar> \<le> 2))
   \<and> (hasUpdated d \<and> contentElement d = Some m \<and> scrollHeight m = 500 \<and> clientHeight m = 200
        \<and> offsetHeight m = 200 \<longrightarrow>
        (scrollTop m = 0 \<longrightarrow>
           getContentScrollInfo d = \<lparr>isScrollable = True, isAtScrollTop = True, isAtScrollBottom = False\<rparr>)
      \<and> (scrollTop m = 300 \<longrightarrow> isAtScrollBottom (getContentScrollInfo d)))
   \<and> (hasUpdated d = hasUpdated d' \<and> contentElement d = contentElement d' \<longrightarrow>
        getContentScrollInfo d = getContentScrollInfo d')"
proof (intro conjI impI)
  assume "\<not> hasUpdated d \<or> contentElement d = None"
  then show "getContentScrollInfo d = \<lparr>isScrollable = False, isAtScrollTop = True, isAtScrollBottom = True\<rparr>"
    by (rule getContentScrollInfo_unrendered)
next
  assume "hasUpdated d \<and> contentElement d = Some m"
  then show "isScrollable (getContentScrollInfo d) = (scrollHeight m > offsetHeight m)"
    by (simp add: getContentScrollInfo_rendered)
next
  assume "hasUpdated d \<and> contentElement d = Some m"
  then show "isAtScrollTop (getContentScrollInfo d) = (scrollTop m = 0)"
    by (simp add: getContentScrollInfo_rendered)
next
  assume "hasUpdated d \<and> contentElement d = Some m"
  then show "isAtScrollBottom (getContentScrollInfo d) =
          (\<bar>round (of_int (scrollHeight m) - scrollTop m) - clientHeight m\<bar> \<le> 2)"
    by (simp add: getContentScrollInfo_rendered)
next
  assume "hasUpdated d \<and> contentElement d = Some m \<and> scrollHeight m = 500 \<and> clientHeight m = 200
        \<and> offsetHeight m = 200" and "scrollTop m = 0"
  then show "getContentScrollInfo d = \<lparr>isScrollable = True, isAtScrollTop = True, isAtScrollBottom = False\<rparr>"
    by (simp add: getContentScrollInfo_rendered)
next
  assume "hasUpdated d \<and> contentElement d = Some m \<and> scrollHeight m = 500 \<and> clientHeight m = 200
        \<and> offsetHeight m = 200" and "scrollTop m = 300"
  then show "isAtScrollBottom (getContentScrollInfo d)"
    by (simp add: getContentScrollInfo_rendered)
next
  assume "hasUpdated d = hasUpdated d' \<and> contentElement d = contentElement d'"
  then show "getContentScrollInfo d = getContentScrollInfo d'"
    by (simp add: getContentScrollInfo_def)
qed

theorem getContentScrollInfo_spec_witness:
  "getContentScrollInfo init = \<lparr>isScrollable = False, isAtScrollTop = True, isAtScrollBottom = True\<rparr>
   \<and> getContentScrollInfo
        (rendered \<lparr>scrollTop = 0, scrollHeight = 500, offsetHeight = 200, clientHeight = 200\<rparr>)
      = \<lparr>isScrollable = True, isAtScrollTop = True, isAtScrollBottom = False\<rparr>
   \<and> isAtScrollBottom (getContentScrollInfo
        (rendered \<lparr>scrollTop = 300, scrollHeight = 500, offsetHeight = 200, clientHeight = 200\<rparr>))
   \<and> \<not> isAtScrollBottom (getContentScrollInfo
        (rendered \<lparr>scrollTop = 595 / 2, scrollHeight = 500, offsetHeight = 200, clientHeight = 200\<rparr>))"
  using getContentScrollInfo_spec [of init undefined init]
    getContentScrollInfo_spec
      [of "rendered \<lparr>scrollTop = 0, scrollHeight = 500, offsetHeight = 200, clientHeight = 200\<rparr>"
          "\<lparr>scrollTop = 0, scrollHeight = 500, offsetHeight = 200, clientHeight = 200\<rparr>" init]
    getContentScrollInfo_spec
      [of "rendered \<lparr>scrollTop = 300, scrollHeight = 500, offsetHeight = 200, clientHeight = 200\<rparr>"
          "\<lparr>scrollTop = 300, scrollHeight = 500, offsetHeight = 200, clientHeight = 200\<rparr>" init]
    getContentScrollInfo_spec
      [of "rendered \<lparr>scrollTop = 595 / 2, scrollHeight = 500, offsetHeight = 200, clientHeight = 200\<rparr>"
          "\<lparr>scrollTop = 595 / 2, scrollHeight = 500, offsetHeight = 200, clientHeight = 200\<rparr>" init]
  by (simp add: rendered_def init_def contentElement_def round_def)


subsection \<open>Runs and invariants\<close>

lemma run_invariant:
  assumes "P d" and "\<And>i s. P s \<Longrightarrow> P (step i s)"
  shows "P (run inputs d)"
  using assms(1)
proof (induction inputs arbitrary: d)
  case Nil
  then show ?case by simp
next
  case (Cons i inputs)
  then show ?case by (simp add: assms(2))
qed

text \<open>What a call by the embedder can touch.\<close>

lemma apply_call_shape:
  "\<exists>b c a. apply_call x d = d\<lparr>open' := b, changedOpen := c, currentAction := a\<rparr>"
proof (cases x)
  case Show
  have "dialog_show d = d\<lparr>open' := open' (dialog_show d), changedOpen := changedOpen (dialog_show d),
          currentAction := currentAction (dialog_show d)\<rparr>"
    by (simp add: dialog_show_def set_open_def)
  with Show show ?thesis by (metis apply_call.simps(1))
next
  case (Close action)
  have "dialog_close action d = d\<lparr>open' := open' (dialog_close action d),
          changedOpen := changedOpen (dialog_close action d),
          currentAction := currentAction (dialog_close action d)\<rparr>"
    by (simp add: dialog_close_def set_open_def)
  with Close show ?thesis by (metis apply_call.simps(2))
next
  case (SetOpen v)
  have "set_open v d = d\<lparr>open' := open' (set_open v d), changedOpen := changedOpen (set_open v d),
          currentAction := currentAction (set_open v d)\<rparr>"
    by (simp add: set_open_def)
  with SetOpen show ?thesis by (metis apply_call.simps(3))
qed

lemma listener_shape:
  "\<exists>b c a. fold apply_call listener d = d\<lparr>open' := b, changedOpen := c, currentAction := a\<rparr>"
proof (induction listener arbitrary: d)
  case Nil
  have "d = d\<lparr>open' := open' d, changedOpen := changedOpen d, currentAction := currentAction d\<rparr>"
    by simp
  then show ?case by (metis fold_simps(1))
next
  case (Cons x listener)
  obtain b c a where 1: "apply_call x d = d\<lparr>open' := b, changedOpen := c, currentAction := a\<rparr>"
    using apply_call_shape by blast
  obtain b' c' a' where 2: "fold apply_call listener (apply_call x d)
       = (apply_call x d)\<lparr>open' := b', changedOpen := c', currentAction := a'\<rparr>"
    using Cons.IH by blast
  have "fold apply_call (x # listener) d = d\<lparr>open' := b', changedOpen := c', currentAction := a'\<rparr>"
    using 1 2 by simp
  then show ?case by blast
qed

lemma listener_frame [simp]:
  "opening (fold apply_call listener d) = opening d"
  "closing (fold apply_call listener d) = closing d"
  "showingOpen (fold apply_call listener d) = showingOpen d"
  "tasks (fold apply_call listener d) = tasks d"
  "hasUpdated (fold apply_call listener d) = hasUpdated d"
  "nextTid (fold apply_call listener d) = nextTid d"
  "nativeOpen (fold apply_call listener d) = nativeOpen d"
proof -
  obtain b c a where "fold apply_call listener d = d\<lparr>open' := b, changedOpen := c, currentAction := a\<rparr>"
    using listener_shape by blast
  then show "opening (fold apply_call listener d) = opening d"
    "closing (fold apply_call listener d) = closing d"
    "showingOpen (fold apply_call listener d) = showingOpen d"
    "tasks (fold apply_call listener d) = tasks d"
    "hasUpdated (fold apply_call listener d) = hasUpdated d"
    "nextTid (fold apply_call listener d) = nextTid d"
    "nativeOpen (fold apply_call listener d) = nativeOpen d"
    by simp_all
qed

lemma set_open_frame [simp]:
  "opening (set_open v d) = opening d"
  "closing (set_open v d) = closing d"
  "showingOpen (set_open v d) = showingOpen d"
  "tasks (set_open v d) = tasks d"
  "hasUpdated (set_open v d) = hasUpdated d"
  "nextTid (set_open v d) = nextTid d"
  "open' (set_open v d) = v"
  by (simp_all add: set_open_def)

lemma apply_call_frame [simp]:
  "opening (apply_call x d) = opening d"
  "closing (apply_call x d) = closing d"
  "showingOpen (apply_call x d) = showingOpen d"
  "tasks (apply_call x d) = tasks d"
  "hasUpdated (apply_call x d) = hasUpdated d"
  "nextTid (apply_call x d) = nextTid d"
  by (cases x; simp add: dialog_show_def dialog_close_def)+

lemma focus_frame [simp]:
  "opening (focus d) = opening d"
  "closing (focus d) = closing d"
  "showingOpen (focus d) = showingOpen d"
  "tasks (focus d) = tasks d"
  "hasUpdated (focus d) = hasUpdated d"
  "nextTid (focus d) = nextTid d"
  "open' (focus d) = open' d"
  "changedOpen (focus d) = changedOpen d"
  "currentAction (focus d) = currentAction d"
  by (simp_all add: focus_def split: option.splits)

subsection \<open>The two flags\<close>

lemma performTransition_resume_flags:
  "\<not> (opening d \<and> closing d) \<Longrightarrow>
   \<not> (opening (performTransition_resume listener k t d) \<and> closing (performTransition_resume listener k t d))"
  by (cases "pc t")
     (auto simp: performTransition_resume_def finish_def dispatchActionEvent_def Let_def
        native_close_def close_the_dialog_def containerElement_def)

lemma handleDialogDismiss_flags:
  "\<not> (opening d \<and> closing d) \<Longrightarrow>
   \<not> (opening (fst (handleDialogDismiss event d)) \<and> closing (fst (handleDialogDismiss event d)))"
  by (auto simp: handleDialogDismiss_def redispatchEvent_def Let_def)

lemma close_the_dialog_frame [simp]:
  "opening (close_the_dialog d) = opening d"
  "closing (close_the_dialog d) = closing d"
  "showingOpen (close_the_dialog d) = showingOpen d"
  "tasks (close_the_dialog d) = tasks d"
  "hasUpdated (close_the_dialog d) = hasUpdated d"
  "nextTid (close_the_dialog d) = nextTid d"
  "open' (close_the_dialog d) = open' d"
  "changedOpen (close_the_dialog d) = changedOpen d"
  "trace (close_the_dialog d) = trace d"
  by (simp_all add: close_the_dialog_def)

lemma step_flags:
  assumes "\<not> (opening d \<and> closing d)"
  shows "\<not> (opening (step i d) \<and> closing (step i d))"
proof (cases i)
  case (Call c)
  with assms show ?thesis by simp
next
  case Update
  then show ?thesis
    using assms
    by (auto simp: performUpdate_def willUpdate_def updated_def performTransition_def showModal_def
          Let_def split: option.splits)
next
  case (Resume k listener)
  then show ?thesis
    using assms performTransition_resume_flags by (simp split: option.splits)
next
  case (CloseEvent hc)
  have "\<not> (opening (d\<lparr>closeQueued := closeQueued d - 1\<rparr>) \<and> closing (d\<lparr>closeQueued := closeQueued d - 1\<rparr>))"
    using assms by simp
  from handleDialogDismiss_flags [OF this] CloseEvent assms show ?thesis by simp
next
  case (CancelEvent hc)
  obtain d1 p where eq: "handleDialogDismiss \<lparr>etype = ''cancel'', hostCancels = hc\<rparr> d = (d1, p)"
    by (cases "handleDialogDismiss \<lparr>etype = ''cancel'', hostCancels = hc\<rparr> d")
  have "\<not> (opening d1 \<and> closing d1)"
    using handleDialogDismiss_flags [OF assms, of "\<lparr>etype = ''cancel'', hostCancels = hc\<rparr>"] eq by simp
  with CancelEvent eq assms show ?thesis by simp
next
  case (Click event)
  with assms show ?thesis
    by (auto simp: handleDialogClick_def dialog_close_def Let_def)
qed (use assms in simp_all)

text \<open>
  Claim C3. In every state that any sequence of calls, property writes, updates, resumed
  transition sequences, native dismissals, clicks and configuration changes leads to from the
  constructed element, \<open>opening\<close> and \<open>closing\<close> are not both true.
\<close>

theorem opening_closing_exclusive:
  "\<not> (opening (run inputs init) \<and> closing (run inputs init))"
proof (rule run_invariant)
  show "\<not> (opening init \<and> closing init)" by (simp add: init_def)
  show "\<not> (opening (step i s) \<and> closing (step i s))" if "\<not> (opening s \<and> closing s)" for i s
    using that by (rule step_flags)
qed


theorem opening_closing_exclusive_witness:
  "\<not> (opening (run [Update, Resume 0 [], Resume 0 [], Call Show, Update] init)
        \<and> closing (run [Update, Resume 0 [], Resume 0 [], Call Show, Update] init))
   \<and> opening (run [Update, Resume 0 [], Resume 0 [], Call Show, Update] init)"
  using opening_closing_exclusive [of "[Update, Resume 0 [], Resume 0 [], Call Show, Update]"]
  by (simp add: dialog_defs Let_def)

subsection \<open>Quiescence\<close>

lemma resolve_frame [simp]:
  "opening (resolve d) = opening d"
  "closing (resolve d) = closing d"
  "showingOpen (resolve d) = showingOpen d"
  "hasUpdated (resolve d) = hasUpdated d"
  "nextTid (resolve d) = nextTid d"
  "open' (resolve d) = open' d"
  "changedOpen (resolve d) = changedOpen d"
  "trace (resolve d) = trace d"
  "currentAction (resolve d) = currentAction d"
  by (simp_all add: resolve_def split: option.splits)

lemma resolve_tasks:
  "tasks d k = Some t \<Longrightarrow> pc t \<noteq> AwaitClosed False \<Longrightarrow> tasks (resolve d) k = Some t"
  by (auto simp: resolve_def split: option.splits)

lemma apply_call_settled:
  "changedOpen d \<noteq> None \<or> showingOpen d = open' d \<Longrightarrow>
   changedOpen (apply_call x d) \<noteq> None \<or> showingOpen (apply_call x d) = open' (apply_call x d)"
  by (cases x) (auto simp: dialog_show_def dialog_close_def set_open_def split: option.splits)

lemma listener_settled:
  "changedOpen d \<noteq> None \<or> showingOpen d = open' d \<Longrightarrow>
   changedOpen (fold apply_call listener d) \<noteq> None
     \<or> showingOpen (fold apply_call listener d) = open' (fold apply_call listener d)"
proof (induction listener arbitrary: d)
  case Nil
  then show ?case by simp
next
  case (Cons x listener)
  from Cons.IH [OF apply_call_settled [OF Cons.prems]] show ?case by simp
qed

lemma apply_call_shown_or_pending:
  "shown_or_pending d \<Longrightarrow> shown_or_pending (apply_call x d)"
  by (cases x) (auto simp: shown_or_pending_def dialog_show_def dialog_close_def set_open_def
                     split: option.splits)

lemma listener_shown_or_pending:
  "shown_or_pending d \<Longrightarrow> shown_or_pending (fold apply_call listener d)"
proof (induction listener arbitrary: d)
  case Nil
  then show ?case by simp
next
  case (Cons x listener)
  from Cons.IH [OF apply_call_shown_or_pending [OF Cons.prems]] show ?case by simp
qed

lemma shown_or_pending_drop:
  assumes "shown_or_pending d" and "tasks d k = Some t" and "pc t \<noteq> AwaitUpdate"
    and "changedOpen e = changedOpen d" and "showingOpen e = showingOpen d" and "open' e = open' d"
    and "\<And>j. j \<noteq> k \<Longrightarrow> tasks e j = tasks d j"
  shows "shown_or_pending e"
proof -
  consider "changedOpen d \<noteq> None" | j u where "tasks d j = Some u" "pc u = AwaitUpdate"
    | "showingOpen d = open' d"
    using assms(1) unfolding shown_or_pending_def by blast
  then show ?thesis
  proof cases
    case 1
    then show ?thesis by (simp add: shown_or_pending_def assms(4))
  next
    case 2
    then have "j \<noteq> k" using assms(2,3) by auto
    then have "tasks e j = Some u" using 2 assms(7) by simp
    then show ?thesis using 2 unfolding shown_or_pending_def by blast
  next
    case 3
    then show ?thesis by (simp add: shown_or_pending_def assms(5,6))
  qed
qed

lemma finish_shown_or_pending:
  assumes "shown_or_pending d" and "tasks d k = Some t" and "pc t \<noteq> AwaitUpdate"
  shows "shown_or_pending (finish listener k t d)"
proof -
  define d1 where "d1 = (if shouldDispatchAction t
                then dispatchActionEvent (if open' d then ''opened'' else ''closed'') listener d
                else d)"
  have "shown_or_pending (d\<lparr>trace := tr\<rparr>)" for tr
    using assms(1) by (simp add: shown_or_pending_def)
  then have 1: "shown_or_pending d1"
    unfolding d1_def dispatchActionEvent_def using assms(1) listener_shown_or_pending by simp
  have 2: "tasks d1 = tasks d"
    by (simp add: d1_def dispatchActionEvent_def)
  have 3: "finish listener k t d = d1\<lparr>currentAction := None, tasks := (tasks d1)(k := None)\<rparr>"
    by (simp add: finish_def d1_def Let_def)
  show ?thesis
    unfolding 3
    by (rule shown_or_pending_drop [OF 1 _ assms(3)]) (simp_all add: 2 assms(2))
qed

lemma performTransition_resume_shown_or_pending:
  assumes "shown_or_pending d" and "tasks d k = Some t"
  shows "shown_or_pending (performTransition_resume listener k t d)"
proof (cases "pc t")
  case AwaitUpdate
  define d2 where "d2 = (if open' d then focus d else d)\<lparr>showingOpen := open' (if open' d then focus d else d)\<rparr>"
  define d3 where "d3 = (if shouldDispatchAction t
                     then dispatchActionEvent (if open' d2 then ''opening'' else ''closing'')
                            listener d2
                     else d2)"
  have "showingOpen d2 = open' d2" by (simp add: d2_def)
  then have "changedOpen (d2\<lparr>trace := tr\<rparr>) \<noteq> None \<or> showingOpen (d2\<lparr>trace := tr\<rparr>) = open' (d2\<lparr>trace := tr\<rparr>)" for tr
    by simp
  from listener_settled [OF this] \<open>showingOpen d2 = open' d2\<close>
  have "changedOpen d3 \<noteq> None \<or> showingOpen d3 = open' d3"
    by (simp add: d3_def dispatchActionEvent_def)
  moreover have "performTransition_resume listener k t d
      = d3\<lparr>tasks := (tasks d3)(k := None), rejected := rejected d3 @ [(k, TypeError)]\<rparr>"
    using AwaitUpdate
    by (simp add: performTransition_resume_def containerElement_def d3_def d2_def Let_def)
  ultimately show ?thesis by (auto simp: shown_or_pending_def)
next
  case AwaitPromise
  define d1 where "d1 = d\<lparr>opening := False, closing := False\<rparr>"
  have 1: "shown_or_pending d1" "tasks d1 k = Some t"
    using assms by (simp_all add: d1_def shown_or_pending_def)
  show ?thesis
  proof (cases "\<not> open' d1 \<and> dialogElement_open d1")
    case True
    then have "performTransition_resume listener k t d
       = (native_close (action_or_default (d1\<lparr>dialogClosedResolver := Some k\<rparr>))
            (d1\<lparr>dialogClosedResolver := Some k\<rparr>))
           \<lparr>tasks := (tasks d1)(k \<mapsto> t\<lparr>pc := AwaitClosed False\<rparr>)\<rparr>"
      using AwaitPromise
      by (simp add: performTransition_resume_def d1_def Let_def native_close_def close_the_dialog_def)
    moreover have "shown_or_pending \<dots>"
      by (rule shown_or_pending_drop [OF 1])
         (simp_all add: AwaitPromise native_close_def)
    ultimately show ?thesis by simp
  next
    case False
    then have "performTransition_resume listener k t d = finish listener k t d1"
      using AwaitPromise
      by (auto simp: performTransition_resume_def d1_def Let_def dialogElement_open_def)
    then show ?thesis
      using finish_shown_or_pending [OF 1] AwaitPromise by simp
  qed
next
  case (AwaitClosed resolved)
  then show ?thesis
    using assms finish_shown_or_pending [OF assms]
    by (simp add: performTransition_resume_def)
qed


lemma performUpdate_shown_or_pending:
  "shown_or_pending d \<Longrightarrow> shown_or_pending (performUpdate d)"
proof (cases "changedOpen d")
  case None
  assume "shown_or_pending d"
  then show ?thesis
    using None by (simp add: performUpdate_def willUpdate_def updated_def shown_or_pending_def)
next
  case (Some old)
  have "tasks (performUpdate d) (nextTid d)
          = Some \<lparr>shouldDispatchAction = (old \<noteq> None), pc = AwaitUpdate\<rparr>"
    using Some
    by (simp add: performUpdate_def willUpdate_def updated_def performTransition_def showModal_def
          Let_def)
  then show ?thesis
    unfolding shown_or_pending_def by (metis task.select_convs(2))
qed

lemma handleDialogDismiss_shown_or_pending:
  assumes "shown_or_pending d"
  shows "shown_or_pending (fst (handleDialogDismiss event d))"
proof (cases "etype event = ''cancel'' \<and> escapeKeyAction d = []")
  case True
  then show ?thesis
    using assms by (simp add: handleDialogDismiss_def shown_or_pending_def)
next
  case False
  define d1 where "d1 = (if etype event = ''cancel''
                then d\<lparr>currentAction := Some (escapeKeyAction d)\<rparr> else d)"
  have 1: "shown_or_pending d1"
    using assms by (simp add: d1_def shown_or_pending_def)
  have 2: "shown_or_pending (resolve d1)"
  proof -
    consider "changedOpen d1 \<noteq> None" | j u where "tasks d1 j = Some u" "pc u = AwaitUpdate"
      | "showingOpen d1 = open' d1"
      using 1 unfolding shown_or_pending_def by blast
    then show ?thesis
    proof cases
      case 2
      then have "tasks (resolve d1) j = Some u" by (simp add: resolve_tasks)
      with 2 show ?thesis unfolding shown_or_pending_def by blast
    qed (simp_all add: shown_or_pending_def)
  qed
  have 3: "shown_or_pending (set_open False ((resolve d1)\<lparr>dialogClosedResolver := None\<rparr>))"
    using 2 by (auto simp: shown_or_pending_def set_open_def split: option.splits)
  have "fst (handleDialogDismiss event d)
     = (set_open False ((resolve d1)\<lparr>dialogClosedResolver := None\<rparr>))
         \<lparr>opening := False, closing := False,
          trace := trace (set_open False ((resolve d1)\<lparr>dialogClosedResolver := None\<rparr>))
                     @ [Redispatch (etype event)]\<rparr>"
    using False by (auto simp: handleDialogDismiss_def redispatchEvent_def d1_def Let_def)
  then show ?thesis
    using 3 by (simp add: shown_or_pending_def)
qed

lemma handleDialogClick_shown_or_pending:
  "shown_or_pending d \<Longrightarrow> shown_or_pending (handleDialogClick event d)"
  by (auto simp: handleDialogClick_def dialog_close_def set_open_def shown_or_pending_def Let_def
           split: option.splits)

lemma step_shown_or_pending:
  assumes "shown_or_pending d"
  shows "shown_or_pending (step i d)"
proof (cases i)
  case (Call c)
  with assms show ?thesis by (simp add: apply_call_shown_or_pending)
next
  case Update
  with assms show ?thesis by (simp add: performUpdate_shown_or_pending)
next
  case (Resume k listener)
  with assms show ?thesis
    by (simp add: performTransition_resume_shown_or_pending split: option.splits)
next
  case (CloseEvent hc)
  have "shown_or_pending (d\<lparr>closeQueued := closeQueued d - 1\<rparr>)"
    using assms by (simp add: shown_or_pending_def)
  from handleDialogDismiss_shown_or_pending [OF this] CloseEvent assms show ?thesis by simp
next
  case (CancelEvent hc)
  obtain d1 p where eq: "handleDialogDismiss \<lparr>etype = ''cancel'', hostCancels = hc\<rparr> d = (d1, p)"
    by (cases "handleDialogDismiss \<lparr>etype = ''cancel'', hostCancels = hc\<rparr> d")
  have "shown_or_pending d1"
    using handleDialogDismiss_shown_or_pending [OF assms, of "\<lparr>etype = ''cancel'', hostCancels = hc\<rparr>"] eq
    by simp
  then have "shown_or_pending (close_the_dialog d1)"
    by (simp add: shown_or_pending_def)
  with CancelEvent eq assms \<open>shown_or_pending d1\<close> show ?thesis by simp
next
  case (Click event)
  with assms show ?thesis by (simp add: handleDialogClick_shown_or_pending)
qed (use assms in \<open>simp_all add: shown_or_pending_def\<close>)

subsection \<open>The first application of state\<close>

lemma first_application_apply_call:
  "first_application d \<Longrightarrow> first_application (apply_call x d)"
  by (cases x)
     (auto simp: first_application_def dialog_show_def dialog_close_def set_open_def
           split: option.splits)

lemma first_application_listener:
  "first_application d \<Longrightarrow> first_application (fold apply_call listener d)"
proof (induction listener arbitrary: d)
  case Nil
  then show ?case by simp
next
  case (Cons x listener)
  from Cons.IH [OF first_application_apply_call [OF Cons.prems]] show ?case by simp
qed

lemma first_application_performUpdate:
  assumes "first_application d"
  shows "first_application (performUpdate d)"
proof (cases "changedOpen d")
  case None
  then have "performUpdate d = d\<lparr>hasUpdated := True\<rparr>"
    by (simp add: performUpdate_unchanged)
  moreover have "hasUpdated d" using assms None by (auto simp: first_application_def)
  ultimately show ?thesis using assms by (simp add: first_application_def)
next
  case (Some old)
  have old: "(old \<noteq> None) = hasUpdated d"
    using assms Some by (auto simp: first_application_def)
  have nt: "(nextTid d \<noteq> 0) = hasUpdated d"
    using assms by (auto simp: first_application_def)
  have "hasUpdated (performUpdate d)" "changedOpen (performUpdate d) = None"
    "nextTid (performUpdate d) = Suc (nextTid d)"
    "tasks (performUpdate d)
       = (tasks d)(nextTid d \<mapsto> \<lparr>shouldDispatchAction = (old \<noteq> None), pc = AwaitUpdate\<rparr>)"
    using Some
    by (simp_all add: performUpdate_def willUpdate_def updated_def performTransition_def
          showModal_def Let_def)
  then show ?thesis
    using assms old nt by (auto simp: first_application_def)
qed

lemma first_application_resume:
  assumes "first_application d" and "tasks d k = Some t"
  shows "first_application (performTransition_resume listener k t d)"
proof -
  have d: "first_application (dispatchActionEvent ty listener e)" if "first_application e" for ty e
  proof -
    have "first_application (e\<lparr>trace := tr\<rparr>)" for tr
      using that by (simp add: first_application_def)
    then show ?thesis
      by (simp add: dispatchActionEvent_def first_application_listener)
  qed
  have upd: "first_application (e\<lparr>tasks := (tasks e)(k \<mapsto> t\<lparr>pc := p\<rparr>)\<rparr>)"
    if "first_application e" "tasks e k = Some t" for e p
    using that by (auto simp: first_application_def)
  have del: "first_application (e\<lparr>currentAction := None, tasks := (tasks e)(k := None)\<rparr>)"
    if "first_application e" for e
    using that by (auto simp: first_application_def)
  have fin: "first_application (finish listener k t e)" if "first_application e" for e
    unfolding finish_def Let_def using that by (auto intro!: del d)
  show ?thesis
  proof (cases "pc t")
    case AwaitUpdate
    define d2 where "d2 = (if open' d then focus d else d)\<lparr>showingOpen := open' (if open' d then focus d else d)\<rparr>"
    have 2: "first_application d2" "tasks d2 k = Some t"
      using assms by (auto simp: d2_def first_application_def focus_def split: option.splits)
    define d3 where "d3 = (if shouldDispatchAction t
                     then dispatchActionEvent (if open' d2 then ''opening'' else ''closing'')
                            listener d2
                     else d2)"
    have 3: "first_application d3" "tasks d3 k = Some t"
      using 2 d by (auto simp: d3_def dispatchActionEvent_def)
    have "performTransition_resume listener k t d
      = d3\<lparr>tasks := (tasks d3)(k := None), rejected := rejected d3 @ [(k, TypeError)]\<rparr>"
      using AwaitUpdate
      by (simp add: performTransition_resume_def containerElement_def d3_def d2_def Let_def)
    then show ?thesis using 3(1) by (auto simp: first_application_def)
  next
    case AwaitPromise
    define d1 where "d1 = d\<lparr>opening := False, closing := False\<rparr>"
    have 1: "first_application d1" "tasks d1 k = Some t"
      using assms by (simp_all add: d1_def first_application_def)
    show ?thesis
    proof (cases "\<not> open' d1 \<and> dialogElement_open d1")
      case True
      define d3 where "d3 = native_close (action_or_default (d1\<lparr>dialogClosedResolver := Some k\<rparr>))
            (d1\<lparr>dialogClosedResolver := Some k\<rparr>)"
      have 3: "first_application d3" "tasks d3 k = Some t"
        using 1 by (simp_all add: d3_def native_close_def first_application_def close_the_dialog_def)
      have "performTransition_resume listener k t d
         = d3\<lparr>tasks := (tasks d3)(k \<mapsto> t\<lparr>pc := AwaitClosed False\<rparr>)\<rparr>"
        using AwaitPromise True
        by (simp add: performTransition_resume_def d1_def d3_def Let_def)
      then show ?thesis using upd [OF 3] by simp
    next
      case False
      then have "performTransition_resume listener k t d = finish listener k t d1"
        using AwaitPromise
        by (auto simp: performTransition_resume_def d1_def Let_def dialogElement_open_def)
      then show ?thesis using fin [OF 1(1)] by simp
    qed
  next
    case (AwaitClosed resolved)
    then show ?thesis
      using assms fin [OF assms(1)] by (simp add: performTransition_resume_def)
  qed
qed

lemma first_application_update [simp]:
  "first_application (e\<lparr>opening := b\<rparr>) = first_application e"
  "first_application (e\<lparr>closing := b\<rparr>) = first_application e"
  "first_application (e\<lparr>showingOpen := b\<rparr>) = first_application e"
  "first_application (e\<lparr>trace := tr\<rparr>) = first_application e"
  "first_application (e\<lparr>currentAction := a\<rparr>) = first_application e"
  "first_application (e\<lparr>dialogClosedResolver := r\<rparr>) = first_application e"
  "first_application (e\<lparr>closeQueued := n\<rparr>) = first_application e"
  "first_application (e\<lparr>nativeOpen := b\<rparr>) = first_application e"
  by (simp_all add: first_application_def)

lemma first_application_dismiss:
  assumes "first_application d"
  shows "first_application (fst (handleDialogDismiss event d))"
proof -
  have r: "first_application (resolve e)" if "first_application e" for e
    using that by (auto simp: resolve_def first_application_def split: option.splits)
  have s: "first_application (set_open v e)" if "first_application e" for e v
    using that by (auto simp: set_open_def first_application_def split: option.splits)
  show ?thesis
    unfolding handleDialogDismiss_def redispatchEvent_def Let_def
    using assms by (auto intro!: r s)
qed

lemma first_application_step:
  assumes "first_application d"
  shows "first_application (step i d)"
proof (cases i)
  case (Call c)
  with assms show ?thesis by (simp add: first_application_apply_call)
next
  case Update
  with assms show ?thesis by (simp add: first_application_performUpdate)
next
  case (Resume k listener)
  with assms show ?thesis by (simp add: first_application_resume split: option.splits)
next
  case (CloseEvent hc)
  have "first_application (d\<lparr>closeQueued := closeQueued d - 1\<rparr>)"
    using assms by simp
  from first_application_dismiss [OF this] CloseEvent assms show ?thesis by simp
next
  case (CancelEvent hc)
  obtain d1 p where eq: "handleDialogDismiss \<lparr>etype = ''cancel'', hostCancels = hc\<rparr> d = (d1, p)"
    by (cases "handleDialogDismiss \<lparr>etype = ''cancel'', hostCancels = hc\<rparr> d")
  have "first_application d1"
    using first_application_dismiss [OF assms, of "\<lparr>etype = ''cancel'', hostCancels = hc\<rparr>"] eq
    by simp
  with CancelEvent eq assms show ?thesis by (simp add: close_the_dialog_def)
next
  case (Click event)
  have "first_application (set_open v e)" if "first_application e" for e v
    using that by (auto simp: set_open_def first_application_def split: option.splits)
  with Click assms show ?thesis
    by (simp add: handleDialogClick_def dialog_close_def Let_def)
qed (use assms in \<open>simp_all add: first_application_def\<close>)

lemma first_application_run: "first_application (run inputs init)"
proof (rule run_invariant)
  show "first_application init" by (simp add: init_def first_application_def)
  show "first_application (step i s)" if "first_application s" for i s
    using that by (rule first_application_step)
qed



text \<open>At quiescence \<open>showingOpen\<close> equals \<open>open\<close>, in every run.\<close>

lemma quiescent_showingOpen_eq:
  assumes "quiescent (run inputs init)"
  shows "showingOpen (run inputs init) = open' (run inputs init)"
proof -
  have "shown_or_pending init"
    by (simp add: init_def shown_or_pending_def)
  then have "shown_or_pending (run inputs init)"
    by (rule run_invariant) (rule step_shown_or_pending)
  then show ?thesis
    using assms by (simp add: quiescent_def shown_or_pending_def)
qed

subsection \<open>The second half of a transition sequence\<close>

lemma first_half_only_update [simp]:
  "first_half_only (e\<lparr>opening := b\<rparr>) = first_half_only e"
  "first_half_only (e\<lparr>closing := b\<rparr>) = first_half_only e"
  "first_half_only (e\<lparr>showingOpen := b\<rparr>) = first_half_only e"
  "first_half_only (e\<lparr>open' := b\<rparr>) = first_half_only e"
  "first_half_only (e\<lparr>changedOpen := c\<rparr>) = first_half_only e"
  "first_half_only (e\<lparr>hasUpdated := b\<rparr>) = first_half_only e"
  "first_half_only (e\<lparr>currentAction := a\<rparr>) = first_half_only e"
  "first_half_only (e\<lparr>dialogClosedResolver := r\<rparr>) = first_half_only e"
  "first_half_only (e\<lparr>closeQueued := n\<rparr>) = first_half_only e"
  "first_half_only (e\<lparr>nativeOpen := b\<rparr>) = first_half_only e"
  "first_half_only (e\<lparr>content := m\<rparr>) = first_half_only e"
  "first_half_only (e\<lparr>rejected := rs\<rparr>) = first_half_only e"
  "first_half_only (e\<lparr>defaultAction := x\<rparr>) = first_half_only e"
  "first_half_only (e\<lparr>actionAttribute := x\<rparr>) = first_half_only e"
  "first_half_only (e\<lparr>scrimClickAction := x\<rparr>) = first_half_only e"
  "first_half_only (e\<lparr>escapeKeyAction := x\<rparr>) = first_half_only e"
  "first_half_only (e\<lparr>footerSlot := xs\<rparr>) = first_half_only e"
  "first_half_only (e\<lparr>contentSlot := xs\<rparr>) = first_half_only e"
  by (simp_all add: first_half_only_def)

lemma first_half_only_set_open: "first_half_only (set_open v e) = first_half_only e"
  by (simp add: set_open_def)

lemma first_half_only_apply_call: "first_half_only (apply_call x e) = first_half_only e"
  by (cases x) (simp_all add: dialog_show_def dialog_close_def first_half_only_set_open)

lemma first_half_only_listener: "first_half_only (fold apply_call listener e) = first_half_only e"
  by (induction listener arbitrary: e) (simp_all add: first_half_only_apply_call)

lemma first_half_only_effect:
  "\<not> is_completion x \<Longrightarrow> first_half_only (e\<lparr>trace := trace e @ [x]\<rparr>) = first_half_only e"
  by (simp add: first_half_only_def)

lemma first_half_only_resolve: "first_half_only e \<Longrightarrow> resolve e = e"
  by (auto simp: first_half_only_def resolve_def split: option.splits)

lemma first_half_only_performUpdate:
  "first_half_only d \<Longrightarrow> first_half_only (performUpdate d)"
  by (auto simp: first_half_only_def performUpdate_def willUpdate_def updated_def
        performTransition_def showModal_def Let_def split: option.splits)

lemma first_half_only_resume:
  assumes "first_half_only d" and "tasks d k = Some t"
  shows "first_half_only (performTransition_resume listener k t d)"
proof -
  have pc: "pc t = AwaitUpdate"
    using assms by (simp add: first_half_only_def)
  have f: "first_half_only (focus d)"
    using assms(1) by (simp add: focus_def first_half_only_effect split: option.splits)
  define d2 where "d2 = (if open' d then focus d else d)\<lparr>showingOpen := open' (if open' d then focus d else d)\<rparr>"
  have 2: "first_half_only d2"
    using assms(1) f by (simp add: d2_def)
  define d3 where "d3 = (if shouldDispatchAction t
                     then dispatchActionEvent (if open' d2 then ''opening'' else ''closing'')
                            listener d2
                     else d2)"
  have 3: "first_half_only d3"
    using 2 by (simp add: d3_def dispatchActionEvent_def first_half_only_listener
                  first_half_only_effect)
  have "performTransition_resume listener k t d
      = d3\<lparr>tasks := (tasks d3)(k := None), rejected := rejected d3 @ [(k, TypeError)]\<rparr>"
    using pc by (simp add: performTransition_resume_def containerElement_def d3_def d2_def Let_def)
  then show ?thesis
    using 3 by (auto simp: first_half_only_def)
qed

lemma first_half_only_dismiss:
  assumes "first_half_only d"
  shows "first_half_only (fst (handleDialogDismiss event d))"
proof -
  have "resolve (d\<lparr>currentAction := a\<rparr>) = d\<lparr>currentAction := a\<rparr>" for a
    using assms by (simp add: first_half_only_resolve)
  then show ?thesis
    using assms first_half_only_resolve [OF assms]
    by (auto simp: handleDialogDismiss_def redispatchEvent_def Let_def first_half_only_def
          set_open_def)
qed

lemma first_half_only_step:
  assumes "first_half_only d"
  shows "first_half_only (step i d)"
proof (cases i)
  case (Call c)
  with assms show ?thesis by (simp add: first_half_only_apply_call)
next
  case Update
  with assms show ?thesis by (simp add: first_half_only_performUpdate)
next
  case (Resume k listener)
  with assms show ?thesis by (simp add: first_half_only_resume split: option.splits)
next
  case (CloseEvent hc)
  have "first_half_only (d\<lparr>closeQueued := closeQueued d - 1\<rparr>)"
    using assms by simp
  from first_half_only_dismiss [OF this] CloseEvent assms show ?thesis by simp
next
  case (CancelEvent hc)
  obtain d1 p where eq: "handleDialogDismiss \<lparr>etype = ''cancel'', hostCancels = hc\<rparr> d = (d1, p)"
    by (cases "handleDialogDismiss \<lparr>etype = ''cancel'', hostCancels = hc\<rparr> d")
  have "first_half_only d1"
    using first_half_only_dismiss [OF assms, of "\<lparr>etype = ''cancel'', hostCancels = hc\<rparr>"] eq
    by simp
  with CancelEvent eq assms show ?thesis by (simp add: close_the_dialog_def)
next
  case (Click event)
  with assms show ?thesis
    by (simp add: handleDialogClick_def dialog_close_def first_half_only_set_open Let_def)
qed (use assms in simp_all)

lemma first_half_only_run: "first_half_only (run inputs init)"
proof (rule run_invariant)
  show "first_half_only init" by (simp add: init_def first_half_only_def)
  show "first_half_only (step i s)" if "first_half_only s" for i s
    using that by (rule first_half_only_step)
qed

text \<open>No run ever invokes the native \<open>close()\<close> or dispatches \<open>opened\<close> or \<open>closed\<close>: every
  transition sequence ends at \<open>getComputedStyle\<close>, right after its first event.\<close>

lemma no_completion: "filter is_completion (trace (run inputs init)) = []"
  using first_half_only_run [of inputs] by (simp add: first_half_only_def)

lemma no_completion_opened: "filter is_completion (trace (run inputs opened)) = []"
  using no_completion [of "opened_inputs @ inputs"] by (simp add: run_append opened_def)


subsection \<open>The flags after a transition sequence\<close>

lemma opening_kept_apply_call: "opening_kept d \<Longrightarrow> opening_kept (apply_call x d)"
  by (cases x)
     (auto simp: opening_kept_def dialog_show_def dialog_close_def set_open_def
           split: option.splits)

lemma opening_kept_listener: "opening_kept d \<Longrightarrow> opening_kept (fold apply_call listener d)"
proof (induction listener arbitrary: d)
  case Nil
  then show ?case by simp
next
  case (Cons x listener)
  from Cons.IH [OF opening_kept_apply_call [OF Cons.prems]] show ?case by simp
qed

lemma opening_kept_resume:
  assumes "opening_kept d" and "pc t = AwaitUpdate"
  shows "opening_kept (performTransition_resume listener k t d)"
proof -
  define d2 where "d2 = (if open' d then focus d else d)\<lparr>showingOpen := open' (if open' d then focus d else d)\<rparr>"
  have 2: "opening_kept d2"
    using assms(1) by (simp add: d2_def opening_kept_def)
  define d3 where "d3 = (if shouldDispatchAction t
                     then dispatchActionEvent (if open' d2 then ''opening'' else ''closing'')
                            listener d2
                     else d2)"
  have "opening_kept (d2\<lparr>trace := tr\<rparr>)" for tr
    using 2 by (simp add: opening_kept_def)
  then have 3: "opening_kept d3"
    using 2 by (simp add: d3_def dispatchActionEvent_def opening_kept_listener)
  have "performTransition_resume listener k t d
      = d3\<lparr>tasks := (tasks d3)(k := None), rejected := rejected d3 @ [(k, TypeError)]\<rparr>"
    using assms(2)
    by (simp add: performTransition_resume_def containerElement_def d3_def d2_def Let_def)
  then show ?thesis
    using 3 by (simp add: opening_kept_def)
qed

lemma opening_kept_dismiss:
  "opening_kept d \<Longrightarrow> opening_kept (fst (handleDialogDismiss event d))"
  by (auto simp: opening_kept_def handleDialogDismiss_def redispatchEvent_def Let_def)

lemma opening_kept_step:
  assumes "opening_kept d" and "first_half_only d"
  shows "opening_kept (step i d)"
proof (cases i)
  case (Call c)
  with assms show ?thesis by (simp add: opening_kept_apply_call)
next
  case Update
  with assms show ?thesis
    by (auto simp: opening_kept_def performUpdate_def willUpdate_def updated_def
          performTransition_def showModal_def Let_def split: option.splits)
next
  case (Resume k listener)
  show ?thesis
  proof (cases "tasks d k")
    case None
    with Resume assms show ?thesis by simp
  next
    case (Some t)
    then have "pc t = AwaitUpdate" using assms(2) by (simp add: first_half_only_def)
    with Resume Some assms show ?thesis by (simp add: opening_kept_resume)
  qed
next
  case (CloseEvent hc)
  have "opening_kept (d\<lparr>closeQueued := closeQueued d - 1\<rparr>)"
    using assms by (simp add: opening_kept_def)
  from opening_kept_dismiss [OF this] CloseEvent assms show ?thesis by simp
next
  case (CancelEvent hc)
  obtain d1 p where eq: "handleDialogDismiss \<lparr>etype = ''cancel'', hostCancels = hc\<rparr> d = (d1, p)"
    by (cases "handleDialogDismiss \<lparr>etype = ''cancel'', hostCancels = hc\<rparr> d")
  have "opening_kept d1"
    using opening_kept_dismiss [OF assms(1), of "\<lparr>etype = ''cancel'', hostCancels = hc\<rparr>"] eq
    by simp
  then have "opening_kept (close_the_dialog d1)"
    by (simp add: opening_kept_def)
  with CancelEvent eq assms \<open>opening_kept d1\<close> show ?thesis by simp
next
  case (Click event)
  with assms show ?thesis
    by (auto simp: opening_kept_def handleDialogClick_def dialog_close_def set_open_def Let_def
             split: option.splits)
qed (use assms in \<open>simp_all add: opening_kept_def\<close>)

lemma opening_kept_run: "opening_kept (run inputs init)"
proof -
  have "opening_kept (run inputs init) \<and> first_half_only (run inputs init)"
  proof (rule run_invariant)
    show "opening_kept init \<and> first_half_only init"
      by (simp add: init_def opening_kept_def first_half_only_def)
    show "opening_kept (step i s) \<and> first_half_only (step i s)"
      if "opening_kept s \<and> first_half_only s" for i s
      using that by (simp add: opening_kept_step first_half_only_step)
  qed
  then show ?thesis by simp
qed

text \<open>A quiescent state with \<open>open\<close> true has \<open>opening\<close> true, in every run: nothing clears the
  flag while the dialog stays open.\<close>

lemma open_quiescent_opening:
  "quiescent (run inputs init) \<Longrightarrow> open' (run inputs init) \<Longrightarrow> opening (run inputs init)"
  using opening_kept_run [of inputs] by (simp add: opening_kept_def quiescent_def)


subsection \<open>The first application of state and the pair of events\<close>

text \<open>The flag itself is as intended, in every run: until the first update the change map
  holds \<open>open\<close> with previous value \<open>undefined\<close>; an update that sees a change of \<open>open\<close> starts a
  transition sequence whose \<open>shouldDispatchAction\<close> is false exactly when it is the first
  update; only the sequence of the first update has the flag false, and a sequence with the
  flag false dispatches no lifecycle event.\<close>

lemma shouldDispatchAction_flag:
  "(\<not> hasUpdated (run inputs init) \<longrightarrow> changedOpen (run inputs init) = Some None)
   \<and> (changedOpen (run inputs init) = Some old \<longrightarrow>
        tasks (performUpdate (run inputs init)) (nextTid (run inputs init))
          = Some \<lparr>shouldDispatchAction = hasUpdated (run inputs init), pc = AwaitUpdate\<rparr>
      \<and> (old = None) = (\<not> hasUpdated (run inputs init)))
   \<and> (tasks (run inputs init) k = Some t \<longrightarrow> shouldDispatchAction t = (k \<noteq> 0))
   \<and> (\<not> shouldDispatchAction t \<longrightarrow>
        filter is_lifecycle (trace (performTransition_resume listener k t d))
          = filter is_lifecycle (trace d))"
proof (intro conjI impI)
  let ?s = "run inputs init"
  have fa: "first_application ?s" by (rule first_application_run)
  show "changedOpen ?s = Some None" if "\<not> hasUpdated ?s"
    using fa that by (simp add: first_application_def)
  show "tasks (performUpdate ?s) (nextTid ?s)
          = Some \<lparr>shouldDispatchAction = hasUpdated ?s, pc = AwaitUpdate\<rparr>"
    if "changedOpen ?s = Some old"
  proof -
    have "(old \<noteq> None) = hasUpdated ?s"
      using fa that by (auto simp: first_application_def)
    then show ?thesis
      using that
      by (simp add: performUpdate_def willUpdate_def updated_def performTransition_def
            showModal_def Let_def)
  qed
  show "(old = None) = (\<not> hasUpdated ?s)" if "changedOpen ?s = Some old"
    using fa that by (auto simp: first_application_def)
  show "shouldDispatchAction t = (k \<noteq> 0)" if "tasks ?s k = Some t"
    using fa that by (simp add: first_application_def)
  show "filter is_lifecycle (trace (performTransition_resume listener k t d))
          = filter is_lifecycle (trace d)" if "\<not> shouldDispatchAction t"
    using that
    by (cases "pc t")
       (simp_all add: performTransition_resume_def finish_def Let_def focus_def native_close_def
          containerElement_def split: option.splits)
qed

text \<open>
  Claim C7 does not hold of the code where it says that every later change of \<open>open\<close>
  dispatches its pair of events. Nothing is dispatched for the initial state; \<open>show()\<close> on the
  rendered dialog starts a transition sequence with \<open>shouldDispatchAction\<close> true, which
  dispatches \<open>opening\<close> and then ends with a \<open>TypeError\<close>; \<open>opened\<close> is not dispatched then, nor in
  any continuation of the run.
\<close>

theorem show_dispatches_opening_only:
  "filter is_lifecycle (trace (run [Update, Resume 0 []] init)) = []
   \<and> quiescent (run [Update, Resume 0 []] init)
   \<and> tasks (run [Update, Resume 0 [], Call Show, Update] init) 1
       = Some \<lparr>shouldDispatchAction = True, pc = AwaitUpdate\<rparr>
   \<and> filter is_lifecycle (trace (run [Update, Resume 0 [], Call Show, Update, Resume 1 []] init))
       = [Dispatch ''opening'' (Some ''none'')]
   \<and> quiescent (run [Update, Resume 0 [], Call Show, Update, Resume 1 []] init)
   \<and> rejected (run [Update, Resume 0 [], Call Show, Update, Resume 1 []] init)
       = [(0, TypeError), (1, TypeError)]
   \<and> filter is_completion
        (trace (run ([Update, Resume 0 [], Call Show, Update, Resume 1 []] @ later) init)) = []"
proof -
  have "filter is_completion
        (trace (run ([Update, Resume 0 [], Call Show, Update, Resume 1 []] @ later) init)) = []"
    by (rule no_completion)
  moreover have "filter is_lifecycle (trace (run [Update, Resume 0 []] init)) = []
   \<and> quiescent (run [Update, Resume 0 []] init)
   \<and> tasks (run [Update, Resume 0 [], Call Show, Update] init) 1
       = Some \<lparr>shouldDispatchAction = True, pc = AwaitUpdate\<rparr>
   \<and> filter is_lifecycle (trace (run [Update, Resume 0 [], Call Show, Update, Resume 1 []] init))
       = [Dispatch ''opening'' (Some ''none'')]
   \<and> quiescent (run [Update, Resume 0 [], Call Show, Update, Resume 1 []] init)
   \<and> rejected (run [Update, Resume 0 [], Call Show, Update, Resume 1 []] init)
       = [(0, TypeError), (1, TypeError)]"
    by (simp add: quiescent_def dialog_defs Let_def)
  ultimately show ?thesis by blast
qed

subsection \<open>The order of a close\<close>

text \<open>
  Claim C2 does not hold of the code. \<open>close('buy')\<close> on the open dialog: \<open>closing\<close> with action
  \<open>buy\<close> is dispatched, then the transition sequence ends with a \<open>TypeError\<close>. The native dialog
  stays open, no \<open>close\<close> event is queued, and in no continuation of the run is the native
  \<open>close()\<close> invoked or \<open>closed\<close> dispatched.
\<close>

theorem close_never_completes:
  "open' opened \<and> dialogElement_open opened
   \<and> trace (run [Call (Close ''buy''), Update, Resume 2 []] opened)
       = trace opened @ [Dispatch ''closing'' (Some ''buy'')]
   \<and> quiescent (run [Call (Close ''buy''), Update, Resume 2 []] opened)
   \<and> rejected (run [Call (Close ''buy''), Update, Resume 2 []] opened)
       = rejected opened @ [(2, TypeError)]
   \<and> dialogElement_open (run [Call (Close ''buy''), Update, Resume 2 []] opened)
   \<and> closeQueued (run [Call (Close ''buy''), Update, Resume 2 []] opened) = 0
   \<and> filter is_completion
        (trace (run ([Call (Close ''buy''), Update, Resume 2 []] @ later) opened)) = []"
proof -
  have "filter is_completion
        (trace (run ([Call (Close ''buy''), Update, Resume 2 []] @ later) opened)) = []"
    by (rule no_completion_opened)
  moreover have "open' opened \<and> dialogElement_open opened
   \<and> trace (run [Call (Close ''buy''), Update, Resume 2 []] opened)
       = trace opened @ [Dispatch ''closing'' (Some ''buy'')]
   \<and> quiescent (run [Call (Close ''buy''), Update, Resume 2 []] opened)
   \<and> rejected (run [Call (Close ''buy''), Update, Resume 2 []] opened)
       = rejected opened @ [(2, TypeError)]
   \<and> dialogElement_open (run [Call (Close ''buy''), Update, Resume 2 []] opened)
   \<and> closeQueued (run [Call (Close ''buy''), Update, Resume 2 []] opened) = 0"
    by (simp add: opened_eq quiescent_def dialog_defs Let_def)
  ultimately show ?thesis by blast
qed

subsection \<open>The empty action\<close>

text \<open>
  Claim C1 does not hold of the code. \<open>close('')\<close> on the open dialog with the default
  configuration: the event \<open>closing\<close> carries the empty string and not the default action
  \<open>close\<close>, since \<open>dispatchActionEvent\<close> reads \<open>currentAction\<close> without the default. The
  transition sequence ends after this event.
\<close>

theorem close_empty_action:
  "open' opened \<and> defaultAction opened = ''close'' \<and> escapeKeyAction opened = ''close''
   \<and> trace (run [Call (Close []), Update, Resume 2 []] opened)
       = trace opened @ [Dispatch ''closing'' (Some [])]
   \<and> quiescent (run [Call (Close []), Update, Resume 2 []] opened)"
  by (simp add: opened_eq quiescent_def dialog_defs Let_def)

subsection \<open>A cancellation gesture that is disabled\<close>

text \<open>With the cancellation action empty, the handler of a \<open>cancel\<close> event prevents the default
  and changes nothing but \<open>currentAction\<close>, which it has overwritten before it returns.\<close>

lemma handleDialogDismiss_cancel_disabled:
  "etype event = ''cancel'' \<Longrightarrow> escapeKeyAction d = [] \<Longrightarrow>
   handleDialogDismiss event d
     = (d\<lparr>currentAction := Some [], trace := trace d @ [PreventDefault]\<rparr>, True)"
  by (simp add: handleDialogDismiss_def)

text \<open>
  Claim C5 does not hold of the code where it says that no internal state changes. With
  \<open>escapeKeyAction = ''\<close>, a cancellation gesture after \<open>close('buy')\<close> replaces the stored action
  \<open>buy\<close> by the empty string. The change shows outside: after the gesture on the open dialog, a
  write of \<open>false\<close> to \<open>open\<close> dispatches \<open>closing\<close> with the empty string, where without the
  gesture the action is \<open>undefined\<close>.
\<close>

theorem cancel_disabled_overwrites_action:
  "escapeKeyAction (run closing_buy opened) = []
   \<and> dialogElement_open (run closing_buy opened)
   \<and> currentAction (run closing_buy opened) = Some ''buy''
   \<and> currentAction (fst (handleDialogDismiss \<lparr>etype = ''cancel'', hostCancels = False\<rparr>
                           (run closing_buy opened))) = Some []
   \<and> currentAction (step (CancelEvent False) (run closing_buy opened)) = Some []
   \<and> trace (run [SetEscapeKeyAction [], CancelEvent False, Call (SetOpen False), Update, Resume 2 []]
               opened)
       = trace opened @ [PreventDefault, Dispatch ''closing'' (Some [])]
   \<and> trace (run [SetEscapeKeyAction [], Call (SetOpen False), Update, Resume 2 []] opened)
       = trace opened @ [Dispatch ''closing'' None]"
  by (simp add: closing_buy_def opened_eq dialog_defs Let_def)

end
